theory Spec2Isabelle
  imports Main "HOL-Library.Sublist" "HOL-Library.Multiset"
begin

section \<open>Python strings\<close>

text \<open>
  Python's \<open>str.strip()\<close> removes leading and trailing white space; the ASCII white
  space characters are the ones below. \<open>pat in s\<close> on strings is the substring test.
\<close>

definition is_space :: "char \<Rightarrow> bool" where
  "is_space c = (c \<in> set [CHR 0x09, CHR 0x0A, CHR 0x0B, CHR 0x0C, CHR 0x0D,
                            CHR 0x1C, CHR 0x1D, CHR 0x1E, CHR 0x1F, CHR 0x20])"

definition strip :: "string \<Rightarrow> string" where
  "strip s = rev (dropWhile is_space (rev (dropWhile is_space s)))"

primrec str_in :: "string \<Rightarrow> string \<Rightarrow> bool" where
  "str_in pat [] = (pat = [])"
| "str_in pat (c # cs) = (prefix pat (c # cs) \<or> str_in pat cs)"



definition digit :: "nat \<Rightarrow> char" where
  "digit d = ''0123456789'' ! d"

fun str_nat :: "nat \<Rightarrow> string" where
  "str_nat n = (if n < 10 then [digit n] else str_nat (n div 10) @ [digit (n mod 10)])"

declare str_nat.simps [simp del]

section \<open>pathlib paths (POSIX flavour)\<close>

text \<open>
  A \<open>Path\<close> is its list of components, with a flag for a leading \<open>/\<close>. Parsing
  a string drops empty components and \<open>.\<close> components, as pathlib does; \<open>..\<close> is
  kept. The operator \<open>/\<close> appends the components of its right operand, or is
  replaced by the right operand when that one is absolute.
\<close>

datatype path = PurePath (anchored: bool) (comps: "string list")

primrec split_on :: "char \<Rightarrow> string \<Rightarrow> string list" where
  "split_on sep [] = [[]]"
| "split_on sep (c # cs) =
     (if c = sep then [] # split_on sep cs
      else (case split_on sep cs of
              [] \<Rightarrow> [[c]]
            | y # ys \<Rightarrow> (c # y) # ys))"

definition Path :: "string \<Rightarrow> path" where
  "Path s = PurePath (s \<noteq> [] \<and> hd s = CHR ''/'')
                     (filter (\<lambda>c. c \<noteq> [] \<and> c \<noteq> ''.'') (split_on (CHR ''/'') s))"

definition joinpath :: "path \<Rightarrow> string \<Rightarrow> path" where
  "joinpath p s =
     (let q = Path s
      in if anchored q then q else PurePath (anchored p) (comps p @ comps q))"

definition child :: "path \<Rightarrow> string \<Rightarrow> path" where
  "child p n = PurePath (anchored p) (comps p @ [n])"

definition parent :: "path \<Rightarrow> path" where
  "parent p = PurePath (anchored p) (butlast (comps p))"

definition path_name :: "path \<Rightarrow> string" where
  "path_name p = (if comps p = [] then [] else last (comps p))"

text \<open>
  \<open>suffix\<close> and \<open>stem\<close> of a file name: with \<open>i\<close> the index of the last dot,
  the suffix is \<open>name[i:]\<close> when \<open>0 < i < len(name) - 1\<close>, and empty otherwise;
  the stem is the rest.
\<close>

definition rfind_dot :: "string \<Rightarrow> nat option" where
  "rfind_dot n =
     (if CHR ''.'' \<in> set n
      then Some (length n - 1 - length (takeWhile (\<lambda>c. c \<noteq> CHR ''.'') (rev n)))
      else None)"

definition suffix_of :: "string \<Rightarrow> string" where
  "suffix_of n =
     (case rfind_dot n of
        None \<Rightarrow> []
      | Some i \<Rightarrow> if 0 < i \<and> i < length n - 1 then drop i n else [])"

definition stem_of :: "string \<Rightarrow> string" where
  "stem_of n =
     (case rfind_dot n of
        None \<Rightarrow> n
      | Some i \<Rightarrow> if 0 < i \<and> i < length n - 1 then take i n else n)"

definition under :: "path \<Rightarrow> path \<Rightarrow> bool" where
  "under p q = (anchored q = anchored p \<and> prefix (comps p) (comps q))"

section \<open>Manifests\<close>

text \<open>
  A cell of a data frame is a value or missing (NaN); \<open>str\<close> of a value is its
  text, \<open>str\<close> of NaN is \<open>nan\<close>. A row is the dictionary \<open>row.to_dict()\<close>, in
  column order; a column a row has no entry for reads as NaN, as pandas fills it.
  A sheet is an Excel file's content; a frame is a sheet read into memory, each row
  with its index label.
\<close>

datatype cell = NaN | Val string

primrec py_str :: "cell \<Rightarrow> string" where
  "py_str NaN = ''nan''"
| "py_str (Val s) = s"

primrec notna :: "cell \<Rightarrow> bool" where
  "notna NaN = False"
| "notna (Val s) = True"

type_synonym row = "(string \<times> cell) list"

definition cell_at :: "row \<Rightarrow> string \<Rightarrow> cell" where
  "cell_at r c = (case map_of r c of None \<Rightarrow> NaN | Some v \<Rightarrow> v)"

record sheet =
  columns :: "string list"
  records :: "row list"

record frame =
  fcolumns :: "string list"
  irows :: "(nat \<times> row) list"

definition read_frame :: "sheet \<Rightarrow> frame" where
  "read_frame sh = \<lparr>fcolumns = columns sh, irows = zip [0..<length (records sh)] (records sh)\<rparr>"

definition DataFrame :: "row list \<Rightarrow> sheet" where
  "DataFrame rs = \<lparr>columns = remdups (concat (map (map fst) rs)), records = rs\<rparr>"

definition sheet_empty :: "sheet \<Rightarrow> bool" where
  "sheet_empty sh = (records sh = [] \<or> columns sh = [])"

definition dropna :: "frame \<Rightarrow> frame" where
  "dropna df =
     df\<lparr>irows := filter (\<lambda>(i, r). notna (cell_at r ''UPC'') \<and> notna (cell_at r ''IMAGES LINK''))
                         (irows df)\<rparr>"

definition row_upc :: "row \<Rightarrow> string" where
  "row_upc r = strip (py_str (cell_at r ''UPC''))"

definition row_url :: "row \<Rightarrow> string" where
  "row_url r = strip (py_str (cell_at r ''IMAGES LINK''))"

definition row_category :: "bool \<Rightarrow> row \<Rightarrow> string option" where
  "row_category has_category r =
     (if has_category \<and> (case map_of r ''CATEGORY'' of None \<Rightarrow> False | Some v \<Rightarrow> notna v)
      then Some (strip (py_str (cell_at r ''CATEGORY'')))
      else None)"

section \<open>The world: manifests on disk, the output tree, the terminal\<close>

text \<open>
  The state outside the program: the Excel files (by absolute path), the directories of
  the output tree (each with its listing in \<open>iterdir\<close> order, an entry being a name
  and whether it is a regular file), the lines waiting on standard input, and the trace
  of what the program printed and called.
\<close>

datatype mark = Done | Skip | Fail

datatype event =
    Invoke string nat
  | EngineCall string path bool string string
  | Wrote mark string string
  | Reading path
  | Summary nat nat nat nat
  | Saved path
  | Updated path
  | Removed path
  | Warned path
  | AllCompleted
  | AutoRetry int
  | LimitReached int string
  | Prompt
  | Hint string
  | Invalid

record world =
  sheets :: "path \<Rightarrow> sheet option"
  dirs :: "path \<Rightarrow> (string \<times> bool) list option"
  stdin :: "string list"
  trace :: "event list"

text \<open>
  What the program cannot decide: the Download Engine (its answer to the n-th call, for
  a URL), the platform, the system's temporary directory, the working directory, the
  order in which the pool's tasks complete, and a fault of the pool itself while a task
  is collected. A fault is an instance of Python's \<open>Exception\<close>, carried as its text.
\<close>

datatype reply = Raises string | NoFile | Returned string bool

record env =
  engine :: "nat \<Rightarrow> string \<Rightarrow> reply"
  platform_system :: string
  gettempdir :: string
  cwd_parts :: "string list"
  pick :: "nat \<Rightarrow> nat"
  worker_fault :: "nat \<Rightarrow> string option"

datatype abort = SysExit nat | Uncaught string

definition emit :: "event \<Rightarrow> world \<Rightarrow> world" where
  "emit e w = w\<lparr>trace := trace w @ [e]\<rparr>"

primrec is_engine_call :: "event \<Rightarrow> bool" where
  "is_engine_call (Invoke u t) = False"
| "is_engine_call (EngineCall u p d s l) = True"
| "is_engine_call (Wrote m u s) = False"
| "is_engine_call (Reading p) = False"
| "is_engine_call (Summary a b c d) = False"
| "is_engine_call (Saved p) = False"
| "is_engine_call (Updated p) = False"
| "is_engine_call (Removed p) = False"
| "is_engine_call (Warned p) = False"
| "is_engine_call AllCompleted = False"
| "is_engine_call (AutoRetry n) = False"
| "is_engine_call (LimitReached n s) = False"
| "is_engine_call Prompt = False"
| "is_engine_call (Hint s) = False"
| "is_engine_call Invalid = False"

definition engine_calls :: "world \<Rightarrow> event list" where
  "engine_calls w = filter is_engine_call (trace w)"

definition cwd :: "env \<Rightarrow> path" where
  "cwd e = PurePath True (cwd_parts e)"

definition resolve :: "env \<Rightarrow> path \<Rightarrow> path" where
  "resolve e p = (if anchored p then p else PurePath True (cwd_parts e @ comps p))"

definition sheet_at :: "env \<Rightarrow> world \<Rightarrow> path \<Rightarrow> sheet option" where
  "sheet_at e w p = sheets w (resolve e p)"

definition to_excel :: "env \<Rightarrow> path \<Rightarrow> sheet \<Rightarrow> world \<Rightarrow> world" where
  "to_excel e p sh w = w\<lparr>sheets := (sheets w)(resolve e p \<mapsto> sh)\<rparr>"

definition unlink :: "env \<Rightarrow> path \<Rightarrow> world \<Rightarrow> world" where
  "unlink e p w = w\<lparr>sheets := (sheets w)(resolve e p := None)\<rparr>"

definition mkdir :: "path \<Rightarrow> world \<Rightarrow> world" where
  "mkdir p w = (case dirs w p of None \<Rightarrow> w\<lparr>dirs := (dirs w)(p \<mapsto> [])\<rparr> | Some es \<Rightarrow> w)"

definition rmtree :: "path \<Rightarrow> world \<Rightarrow> world" where
  "rmtree p w = w\<lparr>dirs := (\<lambda>q. if under p q then None else dirs w q)\<rparr>"

text \<open>
  \<open>shutil.move(src, dst)\<close>: into \<open>dst\<close> when that is an existing directory (an
  error when the name is taken there), else to \<open>dst\<close> itself, replacing a file of
  that name; an error when the directory of \<open>dst\<close> does not exist.
\<close>

definition move :: "path \<Rightarrow> path \<Rightarrow> world \<Rightarrow> string + world" where
  "move src dst w =
     (case dirs w dst of
        Some es \<Rightarrow>
          if path_name src \<in> fst ` set es then Inl ''Destination path already exists''
          else Inr (w\<lparr>dirs := (dirs w)(dst \<mapsto> es @ [(path_name src, True)])\<rparr>)
      | None \<Rightarrow>
          (case dirs w (parent dst) of
             None \<Rightarrow> Inl ''No such file or directory''
           | Some es \<Rightarrow>
               Inr (w\<lparr>dirs := (dirs w)(parent dst \<mapsto>
                      filter (\<lambda>e. fst e \<noteq> path_name dst) es @ [(path_name dst, True)])\<rparr>)))"

section \<open>batch\_processor.py: the probe and the per-item pipeline\<close>

primrec scan :: "path \<Rightarrow> string \<Rightarrow> (string \<times> bool) list \<Rightarrow> path option" where
  "scan output_path upc [] = None"
| "scan output_path upc (e # es) =
     (if snd e \<and> stem_of (path_name (child output_path (fst e))) = upc
      then Some (child output_path (fst e))
      else scan output_path upc es)"

definition target_of :: "string \<Rightarrow> string option \<Rightarrow> path" where
  "target_of output_dir category =
     (case category of
        None \<Rightarrow> Path output_dir
      | Some c \<Rightarrow> if c \<noteq> [] then joinpath (Path output_dir) c else Path output_dir)"

definition check_existing_file :: "world \<Rightarrow> string \<Rightarrow> string \<Rightarrow> string option \<Rightarrow> path option" where
  "check_existing_file w output_dir upc category =
     (let output_path = target_of output_dir category
      in case dirs w output_path of
           None \<Rightarrow> None
         | Some es \<Rightarrow> scan output_path upc es)"

definition user_data_dir_of :: "env \<Rightarrow> nat \<Rightarrow> string \<Rightarrow> string" where
  "user_data_dir_of e thread_id upc =
     (if platform_system e = ''Windows''
      then gettempdir e @ [CHR 0x5C] @ ''chrome-download-'' @ str_nat thread_id @ ''-'' @ upc
      else ''/tmp/chrome-download-'' @ str_nat thread_id)"

definition cleanup :: "path \<Rightarrow> world \<Rightarrow> world" where
  "cleanup temp_dir w = (if dirs w temp_dir \<noteq> None then rmtree temp_dir w else w)"

text \<open>The inner \<open>try\<close> block: the engine call, the move, the message.\<close>

definition attempt ::
  "env \<Rightarrow> string \<Rightarrow> string \<Rightarrow> bool \<Rightarrow> path \<Rightarrow> path \<Rightarrow> string \<Rightarrow> world
     \<Rightarrow> (string + bool \<times> string) \<times> world" where
  "attempt e upc image_url debug target_dir temp_dir user_data_dir w =
     (let w1 = emit (EngineCall image_url temp_dir debug user_data_dir upc) w
      in case engine e (length (engine_calls w)) image_url of
           Raises m \<Rightarrow> (Inl m, w1)
         | NoFile \<Rightarrow> (Inr (False, ''Download failed - no file returned''), w1)
         | Returned fname there \<Rightarrow>
             if \<not> there then (Inr (False, ''Download failed - no file returned''), w1)
             else
               (let downloaded_file = joinpath temp_dir fname;
                    extension = suffix_of (path_name downloaded_file);
                    final_path = joinpath target_dir (upc @ extension)
                in case move downloaded_file final_path w1 of
                     Inl m \<Rightarrow> (Inl m, w1)
                   | Inr w2 \<Rightarrow>
                       (Inr (True, ''Downloaded as '' @ path_name final_path),
                        cleanup temp_dir w2)))"

text \<open>
  The body of the outer \<open>try\<close>: \<open>Inl\<close> is an exception raised in it. The
  \<open>finally\<close> block runs on every way out of the inner \<open>try\<close>.
\<close>

definition download_body ::
  "env \<Rightarrow> string \<Rightarrow> string \<Rightarrow> string \<Rightarrow> bool \<Rightarrow> nat \<Rightarrow> string option \<Rightarrow> world
     \<Rightarrow> (string + bool \<times> string) \<times> world" where
  "download_body e upc image_url output_dir debug thread_id category w =
     (let target_dir = target_of output_dir category;
          w1 = mkdir target_dir w
      in case check_existing_file w1 output_dir upc category of
           Some existing \<Rightarrow>
             (Inr (True, ''Skipped (already exists: '' @ path_name existing @ '')''), w1)
         | None \<Rightarrow>
             (let temp_dir = joinpath (Path output_dir)
                               (''.tmp_'' @ str_nat thread_id @ ''_'' @ upc);
                  w2 = mkdir temp_dir w1;
                  user_data_dir = user_data_dir_of e thread_id upc;
                  rw = attempt e upc image_url debug target_dir temp_dir user_data_dir w2
              in (fst rw, cleanup temp_dir (snd rw))))"

definition download_and_rename ::
  "env \<Rightarrow> string \<Rightarrow> string \<Rightarrow> string \<Rightarrow> bool \<Rightarrow> nat \<Rightarrow> string option \<Rightarrow> world
     \<Rightarrow> (bool \<times> string) \<times> world" where
  "download_and_rename e upc image_url output_dir debug thread_id category w =
     (case download_body e upc image_url output_dir debug thread_id category
             (emit (Invoke upc thread_id) w) of
        (Inl m, w') \<Rightarrow> ((False, ''Error: '' @ m), w')
      | (Inr r, w') \<Rightarrow> (r, w'))"

section \<open>models.py: the statistics of a round\<close>

record failure =
  f_upc :: string
  f_url :: string
  f_error :: string
  f_row_data :: row

record DownloadStats =
  total :: nat
  completed :: nat
  skipped :: nat
  failed :: "failure list"

definition add_completed :: "DownloadStats \<Rightarrow> DownloadStats" where
  "add_completed s = s\<lparr>completed := completed s + 1\<rparr>"

definition add_skipped :: "DownloadStats \<Rightarrow> DownloadStats" where
  "add_skipped s = s\<lparr>skipped := skipped s + 1\<rparr>"

definition add_failed :: "string \<Rightarrow> string \<Rightarrow> string \<Rightarrow> row \<Rightarrow> DownloadStats \<Rightarrow> DownloadStats" where
  "add_failed upc url err row_data s =
     s\<lparr>failed := failed s @ [\<lparr>f_upc = upc, f_url = url, f_error = err, f_row_data = row_data\<rparr>]\<rparr>"

section \<open>batch\_processor.py: the two runners\<close>

text \<open>
  The state a runner threads through a round: the world, the statistics and the set
  \<open>successful_upcs\<close>. Both runners classify a result with the same lines of code:
  a success whose message contains \<open>Skipped\<close> counts as skipped, any other success as
  completed (and its UPC joins \<open>successful_upcs\<close>), a failure is appended.
\<close>

record run_state =
  rs_world :: world
  rs_stats :: DownloadStats
  rs_successful :: "string set"

definition tally :: "string \<Rightarrow> string \<Rightarrow> row \<Rightarrow> bool \<times> string \<Rightarrow> run_state \<Rightarrow> run_state" where
  "tally upc url row_data res st =
     (if fst res then
        (if str_in ''Skipped'' (snd res)
         then st\<lparr>rs_stats := add_skipped (rs_stats st),
                 rs_world := emit (Wrote Skip upc (snd res)) (rs_world st)\<rparr>
         else st\<lparr>rs_stats := add_completed (rs_stats st),
                 rs_successful := insert upc (rs_successful st),
                 rs_world := emit (Wrote Done upc (snd res)) (rs_world st)\<rparr>)
      else st\<lparr>rs_stats := add_failed upc url (snd res) row_data (rs_stats st),
              rs_world := emit (Wrote Fail upc (snd res)) (rs_world st)\<rparr>)"

primrec process_single_threaded ::
  "env \<Rightarrow> string \<Rightarrow> bool \<Rightarrow> bool \<Rightarrow> (nat \<times> row) list \<Rightarrow> run_state \<Rightarrow> run_state" where
  "process_single_threaded e output_dir debug has_category [] st = st"
| "process_single_threaded e output_dir debug has_category (ir # rest) st =
     (let upc = row_upc (snd ir);
          url = row_url (snd ir);
          category = row_category has_category (snd ir);
          rw = download_and_rename e upc url output_dir debug 0 category (rs_world st)
      in process_single_threaded e output_dir debug has_category rest
           (tally upc url (snd ir) (fst rw) (st\<lparr>rs_world := snd rw\<rparr>)))"

text \<open>
  The pool. A task is what \<open>executor.submit\<close> was given, with the entry of
  \<open>future_to_item\<close>. Tasks run one at a time, each as a whole, in the order in which
  they complete; \<open>as_completed\<close> hands out every pending future once, the next one
  chosen by the environment. \<open>df.loc[idx]\<close> is the row with that index label.
\<close>

record task =
  t_idx :: nat
  t_upc :: string
  t_url :: string
  t_category :: "string option"
  t_thread_id :: nat

definition submit :: "bool \<Rightarrow> nat \<Rightarrow> nat \<times> row \<Rightarrow> task" where
  "submit has_category threads ir =
     \<lparr>t_idx = fst ir, t_upc = row_upc (snd ir), t_url = row_url (snd ir),
      t_category = row_category has_category (snd ir), t_thread_id = fst ir mod threads\<rparr>"

definition loc :: "(nat \<times> row) list \<Rightarrow> nat \<Rightarrow> row" where
  "loc rows idx = (case map_of rows idx of None \<Rightarrow> [] | Some r \<Rightarrow> r)"

definition collect :: "env \<Rightarrow> string \<Rightarrow> bool \<Rightarrow> (nat \<times> row) list \<Rightarrow> task \<Rightarrow> run_state \<Rightarrow> run_state" where
  "collect e output_dir debug rows t st =
     (case worker_fault e (t_idx t) of
        Some m \<Rightarrow>
          st\<lparr>rs_stats := add_failed (t_upc t) (t_url t) m (loc rows (t_idx t)) (rs_stats st),
             rs_world := emit (Wrote Fail (t_upc t) (''Exception: '' @ m)) (rs_world st)\<rparr>
      | None \<Rightarrow>
          (let rw = download_and_rename e (t_upc t) (t_url t) output_dir debug
                      (t_thread_id t) (t_category t) (rs_world st)
           in tally (t_upc t) (t_url t) (loc rows (t_idx t)) (fst rw) (st\<lparr>rs_world := snd rw\<rparr>)))"

function as_completed ::
  "env \<Rightarrow> string \<Rightarrow> bool \<Rightarrow> (nat \<times> row) list \<Rightarrow> nat \<Rightarrow> task list \<Rightarrow> run_state \<Rightarrow> run_state" where
  "as_completed e output_dir debug rows k pending st =
     (if pending = [] then st
      else (let i = pick e k mod length pending
            in as_completed e output_dir debug rows (Suc k)
                 (take i pending @ drop (Suc i) pending)
                 (collect e output_dir debug rows (pending ! i) st)))"
  by pat_completeness auto
termination
proof (relation "measure (\<lambda>(e, output_dir, debug, rows, k, pending, st). length pending)", goal_cases)
  case 1
  show ?case by simp
next
  case (2 e output_dir debug rows k pending st i)
  then have "i < length pending" by simp
  then show ?case by simp
qed

declare as_completed.simps [simp del]

definition process_multi_threaded ::
  "env \<Rightarrow> string \<Rightarrow> bool \<Rightarrow> bool \<Rightarrow> int \<Rightarrow> (nat \<times> row) list \<Rightarrow> run_state \<Rightarrow> abort + run_state" where
  "process_multi_threaded e output_dir debug has_category threads rows st =
     (if threads \<le> 0 then Inl (Uncaught ''ValueError'')
      else Inr (as_completed e output_dir debug rows 0
                  (map (submit has_category (nat threads)) rows) st))"

section \<open>batch\_processor.py: a round\<close>

definition create_failed_excel :: "env \<Rightarrow> sheet \<Rightarrow> string \<Rightarrow> world \<Rightarrow> abort + path option \<times> world" where
  "create_failed_excel e df_failed output_dir w =
     (if sheet_empty df_failed then Inr (None, w)
      else (let output_path = Path output_dir
            in case (if path_name output_path \<noteq> [] then Some (path_name output_path)
                     else if anchored output_path then Some ''/'' else None) of
                 None \<Rightarrow> Inl (Uncaught ''IndexError'')
               | Some dir_name \<Rightarrow>
                   (let failed_excel_path = joinpath (cwd e) (''failed_'' @ dir_name @ ''.xlsx'')
                    in Inr (Some failed_excel_path, to_excel e failed_excel_path df_failed w))))"

definition remove_successful_from_failed_excel :: "env \<Rightarrow> path \<Rightarrow> string set \<Rightarrow> world \<Rightarrow> world" where
  "remove_successful_from_failed_excel e failed_excel_path successful_upcs w =
     (case sheet_at e w failed_excel_path of
        None \<Rightarrow> w
      | Some df \<Rightarrow>
          if ''UPC'' \<notin> set (columns df) then emit (Warned failed_excel_path) w
          else (let df_remaining = df\<lparr>records := filter (\<lambda>r. row_upc r \<notin> successful_upcs) (records df)\<rparr>
                in if sheet_empty df_remaining
                   then emit (Removed failed_excel_path) (unlink e failed_excel_path w)
                   else emit (Updated failed_excel_path)
                          (to_excel e failed_excel_path df_remaining w)))"

text \<open>What a round hands back: the world, and with the returned path the statistics
  and \<open>successful_upcs\<close> it ended with.\<close>

record round_result =
  rr_world :: world
  rr_stats :: DownloadStats
  rr_successful :: "string set"
  rr_failed_path :: "path option"

text \<open>Lines 254 to 271: the failed-subset manifest, the pruning, the returned path.\<close>

definition finish :: "env \<Rightarrow> path \<Rightarrow> string \<Rightarrow> bool \<Rightarrow> run_state \<Rightarrow> abort + round_result" where
  "finish e excel_path output_dir is_retry st =
     (let stats = rs_stats st;
          w = emit (Summary (total stats) (completed stats) (skipped stats) (length (failed stats)))
                (rs_world st)
      in case (if failed stats \<noteq> []
               then (case create_failed_excel e (DataFrame (map f_row_data (failed stats))) output_dir w of
                       Inl a \<Rightarrow> Inl a
                     | Inr (None, w') \<Rightarrow> Inr (None, w')
                     | Inr (Some fp, w') \<Rightarrow> Inr (Some fp, emit (Saved fp) w'))
               else Inr (None, w)) of
           Inl a \<Rightarrow> Inl a
         | Inr (failed_excel_path, w1) \<Rightarrow>
             (let w2 = (if is_retry \<and> rs_successful st \<noteq> {}
                        then remove_successful_from_failed_excel e excel_path (rs_successful st) w1
                        else w1)
              in Inr \<lparr>rr_world = w2, rr_stats = stats, rr_successful = rs_successful st,
                      rr_failed_path = (if failed stats \<noteq> [] then failed_excel_path else None)\<rparr>))"

definition process_excel ::
  "env \<Rightarrow> path \<Rightarrow> string \<Rightarrow> int \<Rightarrow> bool \<Rightarrow> bool \<Rightarrow> world \<Rightarrow> abort + round_result" where
  "process_excel e excel_file output_dir threads debug no_categories w =
     (let w1 = emit (Reading excel_file) w
      in case sheet_at e w1 excel_file of
           None \<Rightarrow> Inl (SysExit 1)
         | Some sh \<Rightarrow>
             (let df = read_frame sh;
                  is_retry = prefix ''failed_'' (path_name excel_file)
              in if \<not> (''UPC'' \<in> set (fcolumns df) \<and> ''IMAGES LINK'' \<in> set (fcolumns df))
                 then Inl (SysExit 1)
                 else
                   (let has_category = (''CATEGORY'' \<in> set (fcolumns df) \<and> \<not> no_categories);
                        rows = irows (dropna df);
                        w2 = mkdir (Path output_dir) w1;
                        st = \<lparr>rs_world = w2,
                              rs_stats = \<lparr>total = length rows, completed = 0, skipped = 0, failed = []\<rparr>,
                              rs_successful = {}\<rparr>
                    in case (if threads = 1
                             then Inr (process_single_threaded e output_dir debug has_category rows st)
                             else process_multi_threaded e output_dir debug has_category threads rows st) of
                         Inl a \<Rightarrow> Inl a
                       | Inr st' \<Rightarrow> finish e excel_file output_dir is_retry st')))"

section \<open>cli.py: arguments, validation and the retry loop\<close>


record args =
  excel_file :: string
  output_dir :: string
  threads :: int
  retry :: int
  debug :: bool
  no_categories :: bool









text \<open>Reading the trace: the rounds started, the prompts shown, the ids the pipeline
  was called for, the session directories handed to the engine.\<close>

primrec is_reading :: "event \<Rightarrow> bool" where
  "is_reading (Invoke u t) = False"
| "is_reading (EngineCall u p d s l) = False"
| "is_reading (Wrote m u s) = False"
| "is_reading (Reading p) = True"
| "is_reading (Summary a b c d) = False"
| "is_reading (Saved p) = False"
| "is_reading (Updated p) = False"
| "is_reading (Removed p) = False"
| "is_reading (Warned p) = False"
| "is_reading AllCompleted = False"
| "is_reading (AutoRetry n) = False"
| "is_reading (LimitReached n s) = False"
| "is_reading Prompt = False"
| "is_reading (Hint s) = False"
| "is_reading Invalid = False"

definition rounds :: "world \<Rightarrow> nat" where
  "rounds w = length (filter is_reading (trace w))"

definition prompts :: "world \<Rightarrow> nat" where
  "prompts w = length (filter (\<lambda>ev. ev = Prompt) (trace w))"

primrec invoked :: "event list \<Rightarrow> string list" where
  "invoked [] = []"
| "invoked (ev # evs) = (case ev of Invoke u t \<Rightarrow> u # invoked evs | _ \<Rightarrow> invoked evs)"

section \<open>Example worlds\<close>

text \<open>Concrete environments and worlds, on which the theorems below are run.\<close>

definition linux_env :: env where
  "linux_env =
     \<lparr>engine = (\<lambda>n url. if url = ''u2'' then NoFile else Returned ''img.png'' True),
      platform_system = ''Linux'', gettempdir = ''/tmp'', cwd_parts = [''home''],
      pick = (\<lambda>k. 0), worker_fault = (\<lambda>i. None)\<rparr>"

definition stocked_world :: world where
  "stocked_world =
     \<lparr>sheets = Map.empty,
      dirs = Map.empty(PurePath False [''out''] \<mapsto>
               [(''notes.txt'', True), (''A1'', False), (''A1.png'', True), (''A1.jpg'', True)]),
      stdin = [], trace = []\<rparr>"

text \<open>The session directories handed to the engine, read off a trace; the staging
  directory of a task.\<close>

primrec sessions :: "event list \<Rightarrow> string list" where
  "sessions [] = []"
| "sessions (ev # evs) = (case ev of EngineCall u p d s l \<Rightarrow> s # sessions evs | _ \<Rightarrow> sessions evs)"

definition staging :: "string \<Rightarrow> nat \<Rightarrow> string \<Rightarrow> path" where
  "staging out tid upc = joinpath (Path out) (''.tmp_'' @ str_nat tid @ ''_'' @ upc)"

definition windows_env :: env where
  "windows_env =
     \<lparr>engine = (\<lambda>n url. Returned ''photo.Skipped'' True),
      platform_system = ''Windows'', gettempdir = ''C:'' @ [CHR 0x5C] @ ''Temp'',
      cwd_parts = [''home''], pick = (\<lambda>k. 0), worker_fault = (\<lambda>i. None)\<rparr>"

definition empty_world :: world where
  "empty_world = \<lparr>sheets = Map.empty, dirs = Map.empty, stdin = [], trace = []\<rparr>"

text \<open>The outcomes a round has recorded so far.\<close>

definition tallied :: "DownloadStats \<Rightarrow> nat" where
  "tallied s = completed s + skipped s + length (failed s)"

definition demo_sheet :: sheet where
  "demo_sheet =
     \<lparr>columns = [''UPC'', ''IMAGES LINK''],
      records = [[(''UPC'', Val ''A1''), (''IMAGES LINK'', Val ''u1'')],
                 [(''UPC'', Val '' A2 ''), (''IMAGES LINK'', Val ''u2'')],
                 [(''UPC'', NaN), (''IMAGES LINK'', Val ''u9'')]]\<rparr>"

definition demo_world :: world where
  "demo_world =
     \<lparr>sheets = Map.empty(PurePath True [''home'', ''products.xlsx''] \<mapsto> demo_sheet),
      dirs = Map.empty, stdin = [], trace = []\<rparr>"


definition twin_sheet :: sheet where
  "twin_sheet =
     \<lparr>columns = [''UPC'', ''IMAGES LINK''],
      records = [[(''UPC'', Val ''A1''), (''IMAGES LINK'', Val ''u2'')],
                 [(''UPC'', Val ''A1''), (''IMAGES LINK'', Val ''u2'')]]\<rparr>"

definition twin_world :: world where
  "twin_world =
     \<lparr>sheets = Map.empty(PurePath True [''home'', ''products.xlsx''] \<mapsto> twin_sheet),
      dirs = Map.empty, stdin = [], trace = []\<rparr>"


definition start_state :: "world \<Rightarrow> run_state" where
  "start_state w = \<lparr>rs_world = w, rs_stats = \<lparr>total = 2, completed = 0, skipped = 0, failed = []\<rparr>,
                     rs_successful = {}\<rparr>"

definition suffix_env :: env where
  "suffix_env =
     \<lparr>engine = (\<lambda>n url. Returned ''photo.Skipped'' True),
      platform_system = ''Linux'', gettempdir = ''/tmp'', cwd_parts = [''home''],
      pick = (\<lambda>k. 0), worker_fault = (\<lambda>i. None)\<rparr>"

text \<open>The events a round itself may add to the trace, and what a round leaves of
  the world it started in: standard input, and the trace as a prefix.\<close>

primrec in_round :: "event \<Rightarrow> bool" where
  "in_round (Invoke u t) = True"
| "in_round (EngineCall u p d s l) = True"
| "in_round (Wrote m u s) = True"
| "in_round (Reading p) = False"
| "in_round (Summary a b c d) = True"
| "in_round (Saved p) = True"
| "in_round (Updated p) = True"
| "in_round (Removed p) = True"
| "in_round (Warned p) = True"
| "in_round AllCompleted = False"
| "in_round (AutoRetry n) = False"
| "in_round (LimitReached n s) = False"
| "in_round Prompt = False"
| "in_round (Hint s) = False"
| "in_round Invalid = False"

definition advances :: "world \<Rightarrow> world \<Rightarrow> bool" where
  "advances w w' = (stdin w' = stdin w \<and> (\<exists>evs. trace w' = trace w @ evs \<and> list_all in_round evs))"





text \<open>
  Reading a round off its trace: the ids written with a given mark among a list of
  events, and the events a round added. The failed-subset artifact of an output
  directory, the pruning of a manifest by a set of ids, and two invariants of the item
  loop: every recorded failure carries a row of the manifest together with that row's
  id, and the set of successful ids is the set of ids marked \<open>Done\<close> since the
  round began.
\<close>

primrec marked :: "mark \<Rightarrow> event list \<Rightarrow> string list" where
  "marked m [] = []"
| "marked m (ev # evs) =
     (case ev of
        Wrote m' u s \<Rightarrow> if m' = m then u # marked m evs else marked m evs
      | _ \<Rightarrow> marked m evs)"











definition holds_record :: "env \<Rightarrow> world \<Rightarrow> path \<Rightarrow> string \<Rightarrow> bool" where
  "holds_record e w p x =
     (case sheet_at e w p of
        None \<Rightarrow> False
      | Some sh \<Rightarrow> x \<in> row_upc ` set (records sh))"


section \<open>Helper lemmas\<close>

lemma str_in_sublist: "str_in pat s = sublist pat s"
  by (induction s) (simp_all add: sublist_Cons_right)

lemma path_name_child [simp]: "path_name (child p n) = n"
  by (simp add: path_name_def child_def)


lemma trace_emit [simp]: "trace (emit ev w) = trace w @ [ev]"
  and dirs_emit [simp]: "dirs (emit ev w) = dirs w"
  and sheets_emit [simp]: "sheets (emit ev w) = sheets w"
  and stdin_emit [simp]: "stdin (emit ev w) = stdin w"
  by (simp_all add: emit_def)

lemma trace_mkdir [simp]: "trace (mkdir p w) = trace w"
  and sheets_mkdir [simp]: "sheets (mkdir p w) = sheets w"
  and stdin_mkdir [simp]: "stdin (mkdir p w) = stdin w"
  by (simp_all add: mkdir_def split: option.splits)

lemma dirs_mkdir: "dirs (mkdir p w) = (case dirs w p of None \<Rightarrow> (dirs w)(p \<mapsto> []) | Some es \<Rightarrow> dirs w)"
  by (simp add: mkdir_def split: option.splits)

lemma mkdir_existing: "dirs w p = Some es \<Longrightarrow> mkdir p w = w"
  by (simp add: mkdir_def)

lemma trace_rmtree [simp]: "trace (rmtree p w) = trace w"
  and sheets_rmtree [simp]: "sheets (rmtree p w) = sheets w"
  and stdin_rmtree [simp]: "stdin (rmtree p w) = stdin w"
  by (simp_all add: rmtree_def)

lemma trace_cleanup [simp]: "trace (cleanup p w) = trace w"
  and sheets_cleanup [simp]: "sheets (cleanup p w) = sheets w"
  and stdin_cleanup [simp]: "stdin (cleanup p w) = stdin w"
  by (simp_all add: cleanup_def)

lemma check_existing_file_emit [simp]:
  "check_existing_file (emit ev w) out upc cat = check_existing_file w out upc cat"
  by (simp add: check_existing_file_def)

lemma check_existing_file_mkdir [simp]:
  "check_existing_file (mkdir (target_of out cat) w) out upc cat = check_existing_file w out upc cat"
  by (simp add: check_existing_file_def dirs_mkdir Let_def split: option.splits)

lemma move_keeps:
  "move src dst w = Inr w' \<Longrightarrow> trace w' = trace w \<and> sheets w' = sheets w \<and> stdin w' = stdin w"
  by (auto simp: move_def split: option.splits if_splits)

lemma attempt_trace:
  "trace (snd (attempt e upc url dbg target temp udd w)) = trace w @ [EngineCall url temp dbg udd upc]"
  by (auto simp: attempt_def Let_def split: reply.splits sum.splits dest: move_keeps)


lemma download_found:
  assumes "check_existing_file w out upc cat = Some f"
  shows "download_and_rename e upc url out dbg tid cat w =
           ((True, ''Skipped (already exists: '' @ path_name f @ '')''), emit (Invoke upc tid) w)"
proof -
  from assms obtain es where "dirs w (target_of out cat) = Some es"
    by (auto simp: check_existing_file_def Let_def split: option.splits)
  then have "mkdir (target_of out cat) (emit (Invoke upc tid) w) = emit (Invoke upc tid) w"
    by (simp add: mkdir_existing)
  with assms show ?thesis
    by (simp add: download_and_rename_def download_body_def Let_def)
qed

lemma download_trace:
  "trace (snd (download_and_rename e upc url out dbg tid cat w)) =
     trace w @ Invoke upc tid #
       (case check_existing_file w out upc cat of
          Some f \<Rightarrow> []
        | None \<Rightarrow> [EngineCall url (joinpath (Path out) (''.tmp_'' @ str_nat tid @ ''_'' @ upc)) dbg
                     (user_data_dir_of e tid upc) upc])"
  by (auto simp: download_and_rename_def download_body_def Let_def attempt_trace
           split: option.splits sum.splits prod.splits)


lemma prefix_str_in: "prefix pat s \<Longrightarrow> str_in pat s"
  by (cases s) auto

lemma scan_Some:
  "(n, True) \<in> set es \<Longrightarrow> stem_of n = upc \<Longrightarrow> \<exists>m. scan p upc es = Some (child p m)"
  by (induction es) auto

section \<open>The claims\<close>


text \<open>
  C6. When the target directory holds a regular file whose stem is the item's id, the
  pipeline returns success with a \<open>Skipped\<close> message, the runner counts the item
  as skipped, no call of the Download Engine is added to the trace, the tree is left as
  it was, and running the pipeline again on the resulting world gives the same outcome.
\<close>

theorem existing_file_is_skipped:
  assumes "dirs w (target_of out cat) = Some es" and "(n, True) \<in> set es" and "stem_of n = upc"
  shows "\<exists>m. download_and_rename e upc url out dbg tid cat w =
               ((True, ''Skipped (already exists: '' @ m @ '')''), emit (Invoke upc tid) w)
           \<and> engine_calls (snd (download_and_rename e upc url out dbg tid cat w)) = engine_calls w
           \<and> dirs (snd (download_and_rename e upc url out dbg tid cat w)) = dirs w
           \<and> rs_stats (tally upc url r (fst (download_and_rename e upc url out dbg tid cat w)) st)
               = add_skipped (rs_stats st)
           \<and> fst (download_and_rename e upc url out dbg tid cat
                     (snd (download_and_rename e upc url out dbg tid cat w)))
               = fst (download_and_rename e upc url out dbg tid cat w)"
proof -
  from assms obtain m where m: "check_existing_file w out upc cat = Some (child (target_of out cat) m)"
    using scan_Some [of n es upc "target_of out cat"]
    by (auto simp: check_existing_file_def)
  let ?msg = "''Skipped (already exists: '' @ m @ '')''"
  have run: "download_and_rename e upc url out dbg tid cat w = ((True, ?msg), emit (Invoke upc tid) w)"
    using download_found [OF m] by simp
  have again: "download_and_rename e upc url out dbg tid cat (emit (Invoke upc tid) w)
                 = ((True, ?msg), emit (Invoke upc tid) (emit (Invoke upc tid) w))"
    using download_found [of "emit (Invoke upc tid) w" out upc cat "child (target_of out cat) m"] m
    by simp
  have skipped: "str_in ''Skipped'' ?msg"
    by (rule prefix_str_in) simp
  from run again skipped show ?thesis
    by (intro exI [of _ m]) (simp add: engine_calls_def tally_def)
qed

theorem existing_file_is_skipped_witness:
  "dirs stocked_world (target_of ''out'' None) = Some [(''notes.txt'', True), (''A1'', False), (''A1.png'', True), (''A1.jpg'', True)]
   \<and> (''A1.png'', True) \<in> set [(''notes.txt'', True), (''A1'', False), (''A1.png'', True), (''A1.jpg'', True)]
   \<and> stem_of ''A1.png'' = ''A1''
   \<and> download_and_rename linux_env ''A1'' ''u1'' ''out'' False 0 None stocked_world =
               ((True, ''Skipped (already exists: A1.png)''), emit (Invoke ''A1'' 0) stocked_world)
   \<and> engine_calls (snd (download_and_rename linux_env ''A1'' ''u1'' ''out'' False 0 None stocked_world)) = []"
proof -
  have h1: "dirs stocked_world (target_of ''out'' None) = Some [(''notes.txt'', True), (''A1'', False), (''A1.png'', True), (''A1.jpg'', True)]"
    by (simp add: stocked_world_def target_of_def Path_def)
  have h2: "(''A1.png'', True) \<in> set [(''notes.txt'', True), (''A1'', False), (''A1.png'', True), (''A1.jpg'', True)]"
    by simp
  have h3: "stem_of ''A1.png'' = ''A1''"
    by (simp add: stem_of_def rfind_dot_def)
  have p: "check_existing_file stocked_world ''out'' ''A1'' None = Some (child (target_of ''out'' None) ''A1.png'')"
    by (simp add: check_existing_file_def h1 stem_of_def rfind_dot_def)
  from existing_file_is_skipped [OF h1 h2 h3, of linux_env "''u1''" False 0]
  show ?thesis
    using h1 h3 download_found [OF p] by (auto simp: engine_calls_def stocked_world_def)
qed

lemma sessions_append [simp]: "sessions (xs @ ys) = sessions xs @ sessions ys"
  by (induction xs) (auto split: event.splits)

lemma probe_empty_world [simp]: "check_existing_file empty_world out upc cat = None"
  by (simp add: check_existing_file_def empty_world_def)

lemma str_nat_0: "str_nat 0 = ''0''"
  by (simp add: str_nat.simps [of 0] digit_def)

text \<open>
  C3, as stated, fails: on Windows the session directory is built from the system's
  temporary directory, the worker slot and the item's UPC, so two items on slot 0 get
  two different session directories.
\<close>

theorem session_per_item_on_windows_counterexample:
  "sessions (trace (snd (download_and_rename windows_env ''A1'' ''u1'' ''out'' False 0 None empty_world)))
     = [''C:'' @ [CHR 0x5C] @ ''Temp'' @ [CHR 0x5C] @ ''chrome-download-0-A1'']
   \<and> sessions (trace (snd (download_and_rename windows_env ''A2'' ''u2'' ''out'' False 0 None empty_world)))
     = [''C:'' @ [CHR 0x5C] @ ''Temp'' @ [CHR 0x5C] @ ''chrome-download-0-A2'']
   \<and> user_data_dir_of windows_env 0 ''A1'' \<noteq> user_data_dir_of windows_env 0 ''A2''"
  by (simp add: download_trace user_data_dir_of_def windows_env_def str_nat_0)
    (simp add: empty_world_def)

text \<open>
  C3, amended. On every platform other than Windows, the session directory handed to
  the engine is \<open>/tmp/chrome-download-<slot>\<close>: a run of the pipeline that reaches
  the engine adds exactly that session to the trace, and the session directory of a slot
  is the same for any two item ids. (On Windows it also carries the item's id.)
\<close>

theorem session_keyed_by_slot:
  assumes "platform_system e \<noteq> ''Windows''"
  shows "sessions (trace (snd (download_and_rename e upc url out dbg tid cat w)))
           = sessions (trace w) @
               (if check_existing_file w out upc cat = None
                then [''/tmp/chrome-download-'' @ str_nat tid] else [])
         \<and> user_data_dir_of e tid upc = user_data_dir_of e tid upc'"
  using assms by (auto simp: download_trace user_data_dir_of_def split: option.splits)

theorem session_keyed_by_slot_witness:
  "platform_system linux_env \<noteq> ''Windows''
   \<and> sessions (trace (snd (download_and_rename linux_env ''A1'' ''u1'' ''out'' False 0 None empty_world)))
        = [''/tmp/chrome-download-0'']
   \<and> sessions (trace (snd (download_and_rename linux_env ''A2'' ''u2'' ''out'' False 0 None empty_world)))
        = [''/tmp/chrome-download-0'']"
proof -
  have h: "platform_system linux_env \<noteq> ''Windows''"
    by (simp add: linux_env_def)
  show ?thesis
    using h session_keyed_by_slot [OF h, of "''A1''" "''u1''" "''out''" False 0 None empty_world]
      session_keyed_by_slot [OF h, of "''A2''" "''u2''" "''out''" False 0 None empty_world]
    by (simp add: str_nat_0) (simp add: empty_world_def)
qed

lemma tallied_tally: "tallied (rs_stats (tally upc url r res st)) = Suc (tallied (rs_stats st))"
  by (simp add: tally_def tallied_def add_completed_def add_skipped_def add_failed_def)

lemma total_tally: "total (rs_stats (tally upc url r res st)) = total (rs_stats st)"
  by (simp add: tally_def add_completed_def add_skipped_def add_failed_def)

lemma tallied_single:
  "tallied (rs_stats (process_single_threaded e out dbg hc rows st)) = tallied (rs_stats st) + length rows"
  by (induction rows arbitrary: st) (simp_all add: Let_def tallied_tally)

lemma total_single:
  "total (rs_stats (process_single_threaded e out dbg hc rows st)) = total (rs_stats st)"
  by (induction rows arbitrary: st) (simp_all add: Let_def total_tally)

lemma tallied_collect: "tallied (rs_stats (collect e out dbg rows t st)) = Suc (tallied (rs_stats st))"
  by (simp add: collect_def Let_def tallied_tally split: option.splits)
    (simp add: tallied_def add_failed_def)

lemma total_collect: "total (rs_stats (collect e out dbg rows t st)) = total (rs_stats st)"
  by (simp add: collect_def Let_def total_tally add_failed_def split: option.splits)

lemma length_remove_nth: "i < length xs \<Longrightarrow> Suc (length (take i xs @ drop (Suc i) xs)) = length xs"
  by simp

lemma tallied_pool:
  "tallied (rs_stats (as_completed e out dbg rows k pending st)) = tallied (rs_stats st) + length pending"
proof (induction e out dbg rows k pending st rule: as_completed.induct)
  case (1 e out dbg rows k pending st)
  show ?case
  proof (cases "pending = []")
    case True
    then show ?thesis by (simp add: as_completed.simps)
  next
    case False
    let ?i = "pick e k mod length pending"
    from False have i: "?i < length pending" by simp
    have "tallied (rs_stats (as_completed e out dbg rows k pending st))
            = tallied (rs_stats (collect e out dbg rows (pending ! ?i) st))
                + length (take ?i pending @ drop (Suc ?i) pending)"
      using False "1.IH" [OF False refl]
      by (subst as_completed.simps) (simp add: Let_def)
    also have "\<dots> = tallied (rs_stats st) + Suc (length (take ?i pending @ drop (Suc ?i) pending))"
      by (simp add: tallied_collect)
    also have "\<dots> = tallied (rs_stats st) + length pending"
      using length_remove_nth [OF i] by simp
    finally show ?thesis .
  qed
qed

lemma total_pool:
  "total (rs_stats (as_completed e out dbg rows k pending st)) = total (rs_stats st)"
proof (induction e out dbg rows k pending st rule: as_completed.induct)
  case (1 e out dbg rows k pending st)
  show ?case
  proof (cases "pending = []")
    case True
    then show ?thesis by (simp add: as_completed.simps)
  next
    case False
    then show ?thesis
      using "1.IH" [OF False refl]
      by (subst as_completed.simps) (simp add: Let_def total_collect)
  qed
qed

lemma finish_stats: "finish e file out isr st = Inr r \<Longrightarrow> rr_stats r = rs_stats st"
  by (auto simp: finish_def Let_def split: if_splits sum.splits prod.splits option.splits)

text \<open>
  C5. A round that runs to its end has \<open>completed + skipped + len(failed) = total\<close>,
  where \<open>total\<close> is the number of rows of the manifest left after the rows with a
  missing UPC or link are dropped; this holds for the sequential runner and for the pool,
  whatever the order of completion and whatever faults occur.
\<close>

theorem round_completeness:
  assumes "process_excel e file out thr dbg nocat w = Inr r"
  shows "completed (rr_stats r) + skipped (rr_stats r) + length (failed (rr_stats r)) = total (rr_stats r)
         \<and> (\<exists>sh. sheet_at e w file = Some sh
                \<and> total (rr_stats r) = length (irows (dropna (read_frame sh))))"
proof -
  from assms obtain sh where sh: "sheet_at e w file = Some sh"
    by (auto simp: process_excel_def Let_def sheet_at_def split: option.splits)
  let ?rows = "irows (dropna (read_frame sh))"
  define st0 where "st0 = \<lparr>rs_world = mkdir (Path out) (emit (Reading file) w),
      rs_stats = \<lparr>total = length ?rows, completed = 0, skipped = 0, failed = []\<rparr>,
      rs_successful = {}\<rparr>"
  have st0: "tallied (rs_stats st0) = 0" "total (rs_stats st0) = length ?rows"
    by (simp_all add: st0_def tallied_def)
  from assms sh obtain st where
    fin: "finish e file out (prefix ''failed_'' (path_name file)) st = Inr r"
    and run: "st = process_single_threaded e out dbg
                     (''CATEGORY'' \<in> set (fcolumns (read_frame sh)) \<and> \<not> nocat) ?rows st0
              \<or> st = as_completed e out dbg ?rows 0
                     (map (submit (''CATEGORY'' \<in> set (fcolumns (read_frame sh)) \<and> \<not> nocat) (nat thr))
                        ?rows) st0"
    by (auto simp: process_excel_def Let_def sheet_at_def process_multi_threaded_def st0_def
        split: option.splits if_splits sum.splits)
  from run st0 have st: "tallied (rs_stats st) = length ?rows \<and> total (rs_stats st) = length ?rows"
    by (auto simp: tallied_single total_single tallied_pool total_pool)
  from finish_stats [OF fin] st sh show ?thesis
    by (simp add: tallied_def)
qed

theorem round_completeness_witness:
  "process_excel linux_env (Path ''products.xlsx'') ''out'' 1 False False demo_world
     = Inr (projr (process_excel linux_env (Path ''products.xlsx'') ''out'' 1 False False demo_world))
   \<and> completed (rr_stats (projr (process_excel linux_env (Path ''products.xlsx'') ''out'' 1 False False demo_world))) = 1
   \<and> skipped (rr_stats (projr (process_excel linux_env (Path ''products.xlsx'') ''out'' 1 False False demo_world))) = 0
   \<and> length (failed (rr_stats (projr (process_excel linux_env (Path ''products.xlsx'') ''out'' 1 False False demo_world)))) = 1
   \<and> total (rr_stats (projr (process_excel linux_env (Path ''products.xlsx'') ''out'' 1 False False demo_world))) = 2"
proof -
  let ?x = "process_excel linux_env (Path ''products.xlsx'') ''out'' 1 False False demo_world"
  have "\<not> isl ?x" by code_simp
  then have h: "?x = Inr (projr ?x)" by simp
  have c: "completed (rr_stats (projr ?x)) = 1" "skipped (rr_stats (projr ?x)) = 0"
    "total (rr_stats (projr ?x)) = 2"
    by code_simp+
  from round_completeness [OF h] h c show ?thesis by simp
qed

lemma engine_calls_emit_Invoke [simp]: "engine_calls (emit (Invoke u t) w) = engine_calls w"
  by (simp add: engine_calls_def)

lemma engine_calls_mkdir [simp]: "engine_calls (mkdir p w) = engine_calls w"
  by (simp add: engine_calls_def)






lemma invoked_append [simp]: "invoked (xs @ ys) = invoked xs @ invoked ys"
  by (induction xs) (auto split: event.splits)

lemma invoked_download:
  "invoked (trace (snd (download_and_rename e upc url out dbg tid cat w))) = invoked (trace w) @ [upc]"
  by (simp add: download_trace split: option.splits)

lemma invoked_tally:
  "invoked (trace (rs_world (tally upc url r res st))) = invoked (trace (rs_world st))"
  by (simp add: tally_def)

lemma invoked_single:
  "invoked (trace (rs_world (process_single_threaded e out dbg hc rows st)))
     = invoked (trace (rs_world st)) @ map (row_upc \<circ> snd) rows"
  by (induction rows arbitrary: st) (simp_all add: Let_def invoked_tally invoked_download)

lemma invoked_collect:
  "invoked (trace (rs_world (collect e out dbg rows t st)))
     = invoked (trace (rs_world st)) @ (if worker_fault e (t_idx t) = None then [t_upc t] else [])"
  by (auto simp: collect_def Let_def invoked_tally invoked_download split: option.splits)

lemma sub_add_mset:
  assumes "A \<subseteq># B"
  shows "A \<subseteq># add_mset x B"
proof (rule mset_subset_eqI)
  fix a
  from assms have "count A a \<le> count B a"
    by (rule mset_subset_eq_count)
  then show "count A a \<le> count (add_mset x B) a"
    by simp
qed

lemma mset_map_remove_nth:
  assumes "i < length xs"
  shows "mset (map f xs) = add_mset (f (xs ! i)) (mset (map f (take i xs @ drop (Suc i) xs)))"
proof -
  have "mset (map f xs) = mset (map f (take i xs @ xs ! i # drop (Suc i) xs))"
    by (rule arg_cong [where f = "\<lambda>z. mset (map f z)"]) (rule id_take_nth_drop [OF assms])
  then show ?thesis
    by simp
qed

lemma invoked_pool:
  "\<exists>inv. invoked (trace (rs_world (as_completed e out dbg rows k pending st)))
            = invoked (trace (rs_world st)) @ inv
        \<and> mset inv \<subseteq># mset (map t_upc pending)"
proof (induction e out dbg rows k pending st rule: as_completed.induct)
  case (1 e out dbg rows k pending st)
  show ?case
  proof (cases "pending = []")
    case True
    then show ?thesis by (simp add: as_completed.simps)
  next
    case False
    define i where "i = pick e k mod length pending"
    define rest where "rest = take i pending @ drop (Suc i) pending"
    define st' where "st' = collect e out dbg rows (pending ! i) st"
    define one where "one = (if worker_fault e (t_idx (pending ! i)) = None
                              then [t_upc (pending ! i)] else [])"
    from False have i: "i < length pending" by (simp add: i_def)
    from "1.IH" [OF False refl] obtain inv where
      inv: "invoked (trace (rs_world (as_completed e out dbg rows (Suc k) rest st')))
              = invoked (trace (rs_world st')) @ inv"
      and sub: "mset inv \<subseteq># mset (map t_upc rest)"
      unfolding i_def rest_def st'_def by blast
    have unfold: "as_completed e out dbg rows k pending st
                    = as_completed e out dbg rows (Suc k) rest st'"
      using False unfolding i_def rest_def st'_def
      by (subst as_completed.simps) (simp add: Let_def)
    have split: "mset (map t_upc pending) = add_mset (t_upc (pending ! i)) (mset (map t_upc rest))"
      unfolding rest_def by (rule mset_map_remove_nth [OF i])
    have "mset (one @ inv) \<subseteq># add_mset (t_upc (pending ! i)) (mset (map t_upc rest))"
    proof (cases "worker_fault e (t_idx (pending ! i)) = None")
      case True
      with sub show ?thesis by (simp add: one_def)
    next
      case False
      with sub show ?thesis by (simp add: one_def sub_add_mset)
    qed
    then have "mset (one @ inv) \<subseteq># mset (map t_upc pending)"
      by (simp only: split)
    moreover have "invoked (trace (rs_world (as_completed e out dbg rows k pending st)))
                     = invoked (trace (rs_world st)) @ one @ inv"
      by (simp only: unfold inv) (simp add: st'_def one_def invoked_collect)
    ultimately show ?thesis
      by blast
  qed
qed

lemma distinct_sub_mset:
  assumes "mset ys \<subseteq># mset xs" and "distinct xs"
  shows "distinct ys"
proof -
  have le: "count (mset ys) a \<le> Suc 0" for a
  proof -
    have "count (mset xs) a \<le> Suc 0"
      using assms(2) by (simp add: distinct_count_atmost_1)
    with mset_subset_eq_count [OF assms(1), of a] show ?thesis
      by simp
  qed
  have "count (mset ys) a = (if a \<in> set ys then 1 else 0)" for a
  proof (cases "a \<in> set ys")
    case True
    then have "count (mset ys) a \<noteq> 0" by (simp add: count_mset_0_iff)
    with le [of a] have "count (mset ys) a = 1" by linarith
    with True show ?thesis by (simp only: if_True)
  next
    case False
    then show ?thesis by (simp add: count_mset_0_iff)
  qed
  then show ?thesis
    by (simp add: distinct_count_atmost_1)
qed

lemma trace_to_excel [simp]: "trace (to_excel e p sh w) = trace w"
  and trace_unlink [simp]: "trace (unlink e p w) = trace w"
  by (simp_all add: to_excel_def unlink_def)

lemma invoked_remove_successful:
  "invoked (trace (remove_successful_from_failed_excel e p succ w)) = invoked (trace w)"
  by (simp add: remove_successful_from_failed_excel_def Let_def split: option.splits)

lemma invoked_finish:
  "finish e file out isr st = Inr r \<Longrightarrow> invoked (trace (rr_world r)) = invoked (trace (rs_world st))"
  by (auto simp: finish_def Let_def create_failed_excel_def invoked_remove_successful
      split: if_splits sum.splits prod.splits option.splits)

lemma map_upc_submit: "map t_upc (map (submit hc n) rows) = map (row_upc \<circ> snd) rows"
  by (simp add: submit_def)

text \<open>
  C9, amended. The pipeline is called once per processed row: the ids it was called for
  in a round form, as a multiset, a part of the ids of the rows left after the
  filtering (in the sequential runner they are exactly those ids, in manifest order), so
  when those ids are pairwise distinct no id is processed twice. Nothing in the program
  makes the ids distinct.
\<close>

theorem pipeline_once_per_row:
  assumes "process_excel e file out thr dbg nocat w = Inr r"
    and "sheet_at e w file = Some sh"
  shows "\<exists>inv. invoked (trace (rr_world r)) = invoked (trace w) @ inv
           \<and> mset inv \<subseteq># mset (map (row_upc \<circ> snd) (irows (dropna (read_frame sh))))
           \<and> (thr = 1 \<longrightarrow> inv = map (row_upc \<circ> snd) (irows (dropna (read_frame sh))))
           \<and> (distinct (map (row_upc \<circ> snd) (irows (dropna (read_frame sh)))) \<longrightarrow> distinct inv)"
proof -
  let ?rows = "irows (dropna (read_frame sh))"
  let ?hc = "''CATEGORY'' \<in> set (fcolumns (read_frame sh)) \<and> \<not> nocat"
  define st0 where "st0 = \<lparr>rs_world = mkdir (Path out) (emit (Reading file) w),
      rs_stats = \<lparr>total = length ?rows, completed = 0, skipped = 0, failed = []\<rparr>,
      rs_successful = {}\<rparr>"
  have st0: "invoked (trace (rs_world st0)) = invoked (trace w)"
    by (simp add: st0_def)
  from assms obtain st where
    fin: "finish e file out (prefix ''failed_'' (path_name file)) st = Inr r"
    and run: "(thr = 1 \<and> st = process_single_threaded e out dbg ?hc ?rows st0)
              \<or> (thr \<noteq> 1 \<and> st = as_completed e out dbg ?rows 0 (map (submit ?hc (nat thr)) ?rows) st0)"
    by (auto simp: process_excel_def Let_def sheet_at_def process_multi_threaded_def st0_def
        split: option.splits if_splits sum.splits)
  from run st0 obtain inv where
    inv: "invoked (trace (rs_world st)) = invoked (trace w) @ inv"
    and sub: "mset inv \<subseteq># mset (map (row_upc \<circ> snd) ?rows)"
    and seq: "thr = 1 \<longrightarrow> inv = map (row_upc \<circ> snd) ?rows"
    using invoked_pool [of e out dbg ?rows 0 "map (submit ?hc (nat thr)) ?rows" st0]
    by (auto simp: invoked_single map_upc_submit simp del: map_map)
  have "distinct (map (row_upc \<circ> snd) ?rows) \<longrightarrow> distinct inv"
    using sub by (blast intro: distinct_sub_mset)
  with inv sub seq invoked_finish [OF fin] show ?thesis
    by auto
qed

text \<open>
  C9, as stated, fails: a manifest may carry the same UPC in two rows, and then the round
  holds two work items with that id and calls the pipeline for it twice.
\<close>

theorem pipeline_twice_for_shared_id_counterexample:
  "map row_upc (records twin_sheet) = [''A1'', ''A1'']
   \<and> invoked (trace (rr_world (projr
        (process_excel linux_env (Path ''products.xlsx'') ''out'' 1 False False twin_world))))
       = [''A1'', ''A1'']"
  by code_simp

theorem pipeline_once_per_row_witness:
  "process_excel linux_env (Path ''products.xlsx'') ''out'' 1 False False demo_world
     = Inr (projr (process_excel linux_env (Path ''products.xlsx'') ''out'' 1 False False demo_world))
   \<and> sheet_at linux_env demo_world (Path ''products.xlsx'') = Some demo_sheet
   \<and> distinct (map (row_upc \<circ> snd) (irows (dropna (read_frame demo_sheet))))
   \<and> (\<exists>inv. invoked (trace (rr_world (projr
         (process_excel linux_env (Path ''products.xlsx'') ''out'' 1 False False demo_world))))
           = invoked (trace demo_world) @ inv
        \<and> inv = map (row_upc \<circ> snd) (irows (dropna (read_frame demo_sheet)))
        \<and> distinct inv)"
proof -
  let ?x = "process_excel linux_env (Path ''products.xlsx'') ''out'' 1 False False demo_world"
  have "\<not> isl ?x" by code_simp
  then have h1: "?x = Inr (projr ?x)" by simp
  have h2: "sheet_at linux_env demo_world (Path ''products.xlsx'') = Some demo_sheet"
    by (simp add: sheet_at_def demo_world_def resolve_def Path_def linux_env_def)
  have h3: "distinct (map (row_upc \<circ> snd) (irows (dropna (read_frame demo_sheet))))"
    by code_simp
  from pipeline_once_per_row [OF h1 h2] h3
  have "\<exists>inv. invoked (trace (rr_world (projr ?x))) = invoked (trace demo_world) @ inv
          \<and> inv = map (row_upc \<circ> snd) (irows (dropna (read_frame demo_sheet)))
          \<and> distinct inv"
    by auto
  with h1 h2 h3 show ?thesis
    by blast
qed

lemma split_on_no_sep: "sep \<notin> set s \<Longrightarrow> split_on sep s = [s]"
  by (induction s) auto

lemma split_on_pieces: "x \<in> set (split_on sep s) \<Longrightarrow> sep \<notin> set x"
  by (induction s arbitrary: x) (auto split: if_splits list.splits)

lemma Path_plain:
  "CHR ''/'' \<notin> set s \<Longrightarrow> s \<noteq> [] \<Longrightarrow> s \<noteq> ''.'' \<Longrightarrow> Path s = PurePath False [s]"
  by (cases s) (auto simp: Path_def split_on_no_sep)

lemma path_name_join_plain:
  "CHR ''/'' \<notin> set s \<Longrightarrow> s \<noteq> [] \<Longrightarrow> s \<noteq> ''.'' \<Longrightarrow> path_name (joinpath p s) = s"
  by (simp add: joinpath_def Path_plain path_name_def)

lemma comps_Path_no_slash: "x \<in> set (comps (Path s)) \<Longrightarrow> CHR ''/'' \<notin> set x"
  by (auto simp: Path_def dest: split_on_pieces)

lemma comps_joinpath_no_slash:
  "(\<And>y. y \<in> set (comps p) \<Longrightarrow> CHR ''/'' \<notin> set y) \<Longrightarrow> x \<in> set (comps (joinpath p s))
     \<Longrightarrow> CHR ''/'' \<notin> set x"
  by (auto simp: joinpath_def Let_def dest: comps_Path_no_slash split: if_splits)

lemma path_name_no_slash:
  "(\<And>y. y \<in> set (comps p) \<Longrightarrow> CHR ''/'' \<notin> set y) \<Longrightarrow> CHR ''/'' \<notin> set (path_name p)"
  by (auto simp: path_name_def)

lemma set_suffix_of: "set (suffix_of n) \<subseteq> set n"
  by (auto simp: suffix_of_def split: option.splits dest: in_set_dropD)

lemma downloaded_suffix_no_slash:
  "CHR ''/'' \<notin> set (suffix_of (path_name (joinpath (joinpath (Path out) t) fname)))"
proof -
  have a: "CHR ''/'' \<notin> set y" if "y \<in> set (comps (joinpath (Path out) t))" for y
    using that comps_joinpath_no_slash [of "Path out" y t] comps_Path_no_slash [of _ out] by blast
  have b: "CHR ''/'' \<notin> set y" if "y \<in> set (comps (joinpath (joinpath (Path out) t) fname))" for y
    using that comps_joinpath_no_slash [of "joinpath (Path out) t" y fname] a by blast
  have "CHR ''/'' \<notin> set (path_name (joinpath (joinpath (Path out) t) fname))"
    using path_name_no_slash [of "joinpath (joinpath (Path out) t) fname"] b by blast
  with set_suffix_of [of "path_name (joinpath (joinpath (Path out) t) fname)"] show ?thesis
    by blast
qed

lemma suffix_of_dot: "suffix_of n = [] \<or> (\<exists>t. suffix_of n = CHR ''.'' # t)"
proof (cases "CHR ''.'' \<in> set n")
  case False
  then show ?thesis by (simp add: suffix_of_def rfind_dot_def)
next
  case True
  define k where "k = length (takeWhile (\<lambda>c. c \<noteq> CHR ''.'') (rev n))"
  have k: "k < length n"
  proof (rule ccontr)
    assume "\<not> k < length n"
    with length_takeWhile_le [of "\<lambda>c. c \<noteq> CHR ''.''" "rev n"]
    have "length (takeWhile (\<lambda>c. c \<noteq> CHR ''.'') (rev n)) = length (rev n)"
      by (simp add: k_def)
    then have "takeWhile (\<lambda>c. c \<noteq> CHR ''.'') (rev n) = rev n"
      by (metis append_Nil2 append_eq_append_conv takeWhile_dropWhile_id)
    with True show False
      by (auto simp: takeWhile_eq_all_conv)
  qed
  have "rev n ! k = CHR ''.''"
    using k nth_length_takeWhile [of "\<lambda>c. c \<noteq> CHR ''.''" "rev n"] unfolding k_def by simp
  with k have dot: "n ! (length n - 1 - k) = CHR ''.''"
    by (simp add: rev_nth)
  from k have "length n - 1 - k < length n" by simp
  then have "drop (length n - 1 - k) n = n ! (length n - 1 - k) # drop (Suc (length n - 1 - k)) n"
    by (simp add: Cons_nth_drop_Suc)
  with dot True show ?thesis
    by (auto simp: suffix_of_def rfind_dot_def k_def)
qed

lemma sublist_across:
  assumes "c \<notin> set pat"
  shows "sublist pat (a @ c # b) \<longleftrightarrow> sublist pat a \<or> sublist pat b"
proof
  assume "sublist pat a \<or> sublist pat b"
  then show "sublist pat (a @ c # b)"
    by (metis sublist_order.order_trans sublist_Cons_right sublist_append_rightI
        sublist_append_leftI)
next
  assume "sublist pat (a @ c # b)"
  then consider "sublist pat a" | "sublist pat (c # b)"
    | xs1 xs2 where "pat = xs1 @ xs2" "suffix xs1 a" "prefix xs2 (c # b)" "xs2 \<noteq> []"
    unfolding sublist_append by (metis append_Nil2 suffix_imp_sublist)
  then show "sublist pat a \<or> sublist pat b"
  proof cases
    case 1
    then show ?thesis by simp
  next
    case 2
    then have "prefix pat (c # b) \<or> sublist pat b"
      by (simp add: sublist_Cons_right)
    moreover have "\<not> prefix pat (c # b) \<or> pat = []"
      using assms by (cases pat) auto
    ultimately show ?thesis by auto
  next
    case 3
    then have "c \<in> set xs2" by (cases xs2) auto
    with 3 assms show ?thesis by simp
  qed
qed

lemma downloaded_message_clean:
  assumes "\<not> str_in ''Skipped'' upc" and "\<not> str_in ''Skipped'' ext"
    and "ext = [] \<or> (\<exists>t. ext = CHR ''.'' # t)"
  shows "\<not> str_in ''Skipped'' (''Downloaded as '' @ upc @ ext)"
proof -
  have "\<not> sublist ''Skipped'' (upc @ ext)"
  proof (cases ext)
    case Nil
    with assms show ?thesis by (simp add: str_in_sublist)
  next
    case (Cons c t)
    with assms(3) have ext: "ext = CHR ''.'' # t" by simp
    with assms(2) have "\<not> sublist ''Skipped'' t"
      by (simp add: str_in_sublist sublist_Cons_right)
    with assms(1) show ?thesis
      unfolding ext by (subst sublist_across) (simp_all add: str_in_sublist)
  qed
  moreover have "\<not> sublist ''Skipped'' ''Downloaded as''"
    unfolding str_in_sublist [symmetric] by code_simp
  moreover have "''Downloaded as '' @ upc @ ext = ''Downloaded as'' @ CHR '' '' # (upc @ ext)"
    by simp
  ultimately show ?thesis
    using sublist_across [of "CHR '' ''" "''Skipped''" "''Downloaded as''" "upc @ ext"]
    by (simp add: str_in_sublist)
qed

lemma download_fresh_success:
  assumes "check_existing_file w out upc cat = None"
    and "fst (fst (download_and_rename e upc url out dbg tid cat w))"
  shows "\<exists>fname. engine e (length (engine_calls w)) url = Returned fname True
           \<and> snd (fst (download_and_rename e upc url out dbg tid cat w))
               = ''Downloaded as '' @ path_name (joinpath (target_of out cat)
                   (upc @ suffix_of (path_name (joinpath (staging out tid upc) fname))))"
  using assms
  by (auto simp: download_and_rename_def download_body_def attempt_def Let_def staging_def
      split: reply.splits sum.splits if_splits)

text \<open>
  C10, as stated, fails: an id without \<open>Skipped\<close> is still tallied as skipped, and
  kept out of the ids to prune, when no file was there before and the downloaded file's
  extension contains \<open>Skipped\<close>, since the extension is part of the message.
\<close>

theorem skipped_by_extension_counterexample:
  "check_existing_file empty_world ''out'' ''A1'' None = None
   \<and> \<not> str_in ''Skipped'' ''A1''
   \<and> fst (download_and_rename suffix_env ''A1'' ''u1'' ''out'' False 0 None empty_world)
       = (True, ''Downloaded as A1.Skipped'')
   \<and> skipped (rs_stats (tally ''A1'' ''u1'' []
        (fst (download_and_rename suffix_env ''A1'' ''u1'' ''out'' False 0 None empty_world))
        (start_state empty_world))) = 1
   \<and> completed (rs_stats (tally ''A1'' ''u1'' []
        (fst (download_and_rename suffix_env ''A1'' ''u1'' ''out'' False 0 None empty_world))
        (start_state empty_world))) = 0
   \<and> rs_successful (tally ''A1'' ''u1'' []
        (fst (download_and_rename suffix_env ''A1'' ''u1'' ''out'' False 0 None empty_world))
        (start_state empty_world)) = {}"
  by code_simp

text \<open>
  C10, amended. For an id that is a plain file name (not empty, not \<open>.\<close>, without
  \<open>/\<close>) and does not contain \<open>Skipped\<close>, and a download whose extension does
  not contain \<open>Skipped\<close> either: when the probe finds a file the pipeline succeeds
  with a message containing \<open>Skipped\<close>; a success with no file found has the message
  \<open>Downloaded as <id><extension>\<close>, which does not contain \<open>Skipped\<close>; so the
  runner counts the item as skipped exactly when a file was found, and counts it as
  completed and adds its id to \<open>successful_upcs\<close> exactly when the download succeeded
  with no file found.
\<close>

theorem skipped_iff_existing_file:
  assumes "upc \<noteq> []" and "upc \<noteq> ''.''" and "CHR ''/'' \<notin> set upc"
    and "\<not> str_in ''Skipped'' upc"
    and "\<forall>fname. engine e (length (engine_calls w)) url = Returned fname True
           \<longrightarrow> \<not> str_in ''Skipped'' (suffix_of (path_name (joinpath (staging out tid upc) fname)))"
  shows "(check_existing_file w out upc cat \<noteq> None
            \<longrightarrow> fst (fst (download_and_rename e upc url out dbg tid cat w))
              \<and> str_in ''Skipped'' (snd (fst (download_and_rename e upc url out dbg tid cat w))))
       \<and> (check_existing_file w out upc cat = None
            \<and> fst (fst (download_and_rename e upc url out dbg tid cat w))
            \<longrightarrow> (\<exists>fname. engine e (length (engine_calls w)) url = Returned fname True
                   \<and> snd (fst (download_and_rename e upc url out dbg tid cat w))
                       = ''Downloaded as '' @ upc
                           @ suffix_of (path_name (joinpath (staging out tid upc) fname)))
              \<and> \<not> str_in ''Skipped'' (snd (fst (download_and_rename e upc url out dbg tid cat w))))
       \<and> skipped (rs_stats (tally upc url r (fst (download_and_rename e upc url out dbg tid cat w)) st))
           = skipped (rs_stats st) + (if check_existing_file w out upc cat \<noteq> None then 1 else 0)
       \<and> completed (rs_stats (tally upc url r (fst (download_and_rename e upc url out dbg tid cat w)) st))
           = completed (rs_stats st)
               + (if check_existing_file w out upc cat = None
                     \<and> fst (fst (download_and_rename e upc url out dbg tid cat w)) then 1 else 0)
       \<and> rs_successful (tally upc url r (fst (download_and_rename e upc url out dbg tid cat w)) st)
           = (if check_existing_file w out upc cat = None
                 \<and> fst (fst (download_and_rename e upc url out dbg tid cat w))
              then insert upc (rs_successful st) else rs_successful st)"
proof -
  let ?res = "fst (download_and_rename e upc url out dbg tid cat w)"
  have found: "fst ?res \<and> str_in ''Skipped'' (snd ?res)"
    if "check_existing_file w out upc cat \<noteq> None"
  proof -
    from that obtain f where "check_existing_file w out upc cat = Some f" by blast
    from download_found [OF this, of e url dbg tid] show ?thesis
      by (simp add: prefix_str_in)
  qed
  have fresh: "(\<exists>fname. engine e (length (engine_calls w)) url = Returned fname True
                  \<and> snd ?res = ''Downloaded as '' @ upc
                       @ suffix_of (path_name (joinpath (staging out tid upc) fname)))
               \<and> \<not> str_in ''Skipped'' (snd ?res)"
    if none: "check_existing_file w out upc cat = None" and ok: "fst ?res"
  proof -
    from download_fresh_success [OF none ok] obtain fname where
      reply: "engine e (length (engine_calls w)) url = Returned fname True"
      and msg: "snd ?res = ''Downloaded as '' @ path_name (joinpath (target_of out cat)
                  (upc @ suffix_of (path_name (joinpath (staging out tid upc) fname))))"
      by blast
    define ext where "ext = suffix_of (path_name (joinpath (staging out tid upc) fname))"
    have slash: "CHR ''/'' \<notin> set ext"
      unfolding ext_def staging_def by (rule downloaded_suffix_no_slash)
    have dot: "ext = [] \<or> (\<exists>t. ext = CHR ''.'' # t)"
      unfolding ext_def by (rule suffix_of_dot)
    from assms(5) reply have clean: "\<not> str_in ''Skipped'' ext"
      by (simp add: ext_def)
    from assms(1,2) dot have "upc @ ext \<noteq> []" "upc @ ext \<noteq> ''.''"
      by (auto simp: append_eq_Cons_conv)
    with assms(3) slash have "path_name (joinpath (target_of out cat) (upc @ ext)) = upc @ ext"
      by (intro path_name_join_plain) auto
    with msg have msg': "snd ?res = ''Downloaded as '' @ upc @ ext"
      by (simp add: ext_def)
    with reply downloaded_message_clean [OF assms(4) clean dot] show ?thesis
      by (auto simp: ext_def)
  qed
  show ?thesis
  proof (cases "check_existing_file w out upc cat = None")
    case True
    show ?thesis
    proof (cases "fst ?res")
      case ok: True
      with True fresh [OF True ok] show ?thesis
        by (simp add: tally_def add_completed_def)
    next
      case False
      with True show ?thesis
        by (simp add: tally_def add_failed_def)
    qed
  next
    case False
    with found show ?thesis
      by (simp add: tally_def add_skipped_def)
  qed
qed

theorem skipped_iff_existing_file_witness:
  "''A1'' \<noteq> [] \<and> ''A1'' \<noteq> ''.'' \<and> CHR ''/'' \<notin> set ''A1'' \<and> \<not> str_in ''Skipped'' ''A1''
   \<and> engine linux_env (length (engine_calls empty_world)) ''u1'' = Returned ''img.png'' True
   \<and> \<not> str_in ''Skipped'' (suffix_of (path_name (joinpath (staging ''out'' 0 ''A1'') ''img.png'')))
   \<and> check_existing_file empty_world ''out'' ''A1'' None = None
   \<and> fst (download_and_rename linux_env ''A1'' ''u1'' ''out'' False 0 None empty_world)
       = (True, ''Downloaded as A1.png'')
   \<and> \<not> str_in ''Skipped'' (snd (fst (download_and_rename linux_env ''A1'' ''u1'' ''out'' False 0 None empty_world)))
   \<and> check_existing_file stocked_world ''out'' ''A1'' None \<noteq> None
   \<and> fst (fst (download_and_rename linux_env ''A1'' ''u1'' ''out'' False 0 None stocked_world))
   \<and> str_in ''Skipped'' (snd (fst (download_and_rename linux_env ''A1'' ''u1'' ''out'' False 0 None stocked_world)))"
proof -
  have plain: "''A1'' \<noteq> []" "''A1'' \<noteq> ''.''" "CHR ''/'' \<notin> set ''A1''" "\<not> str_in ''Skipped'' ''A1''"
    by simp_all
  have reply: "engine linux_env (length (engine_calls empty_world)) ''u1'' = Returned ''img.png'' True"
    "engine linux_env (length (engine_calls stocked_world)) ''u1'' = Returned ''img.png'' True"
    by (simp_all add: linux_env_def)
  have ext: "\<not> str_in ''Skipped'' (suffix_of (path_name (joinpath (staging ''out'' 0 ''A1'') ''img.png'')))"
    by code_simp
  have e1: "\<forall>fname. engine linux_env (length (engine_calls empty_world)) ''u1'' = Returned fname True
       \<longrightarrow> \<not> str_in ''Skipped'' (suffix_of (path_name (joinpath (staging ''out'' 0 ''A1'') fname)))"
    using ext by (simp add: reply)
  have e2: "\<forall>fname. engine linux_env (length (engine_calls stocked_world)) ''u1'' = Returned fname True
       \<longrightarrow> \<not> str_in ''Skipped'' (suffix_of (path_name (joinpath (staging ''out'' 0 ''A1'') fname)))"
    using ext by (simp add: reply)
  have none: "check_existing_file empty_world ''out'' ''A1'' None = None"
    by simp
  have some: "check_existing_file stocked_world ''out'' ''A1'' None \<noteq> None"
    by code_simp
  have ok: "fst (download_and_rename linux_env ''A1'' ''u1'' ''out'' False 0 None empty_world)
       = (True, ''Downloaded as A1.png'')"
    by code_simp
  from skipped_iff_existing_file [OF plain e2, of None False "[]" "start_state empty_world"] some
  have "fst (fst (download_and_rename linux_env ''A1'' ''u1'' ''out'' False 0 None stocked_world))
     \<and> str_in ''Skipped'' (snd (fst (download_and_rename linux_env ''A1'' ''u1'' ''out'' False 0 None stocked_world)))"
    by blast
  moreover from skipped_iff_existing_file [OF plain e1, of None False "[]" "start_state empty_world"]
    none ok
  have "\<not> str_in ''Skipped'' (snd (fst (download_and_rename linux_env ''A1'' ''u1'' ''out'' False 0 None empty_world)))"
    by simp
  ultimately show ?thesis
    using plain reply(1) ext none some ok by blast
qed

lemma advances_refl [simp]: "advances w w"
  by (simp add: advances_def)




lemma world_tally:
  "\<exists>m. rs_world (tally upc url r res st) = emit (Wrote m upc (snd res)) (rs_world st)"
  by (auto simp: tally_def)


lemma sheets_tally [simp]: "sheets (rs_world (tally upc url r res st)) = sheets (rs_world st)"
  using world_tally [of upc url r res st] by auto







lemma stdin_to_excel [simp]: "stdin (to_excel e p sh w) = stdin w"
  and stdin_unlink [simp]: "stdin (unlink e p w) = stdin w"
  by (simp_all add: to_excel_def unlink_def)










lemma rounds_stdin [simp]: "rounds (w\<lparr>stdin := x\<rparr>) = rounds w"
  and prompts_stdin [simp]: "prompts (w\<lparr>stdin := x\<rparr>) = prompts w"
  by (simp_all add: rounds_def prompts_def)




lemma marked_append [simp]: "marked m (xs @ ys) = marked m xs @ marked m ys"
  by (induction xs) (auto split: event.splits)








lemma failed_download [simp]:
  "failed (rs_stats (st\<lparr>rs_world := w\<rparr>)) = failed (rs_stats st)"
  by simp






lemma sheet_at_emit [simp]: "sheet_at e (emit ev w) p = sheet_at e w p"
  by (simp add: sheet_at_def)















lemma holds_record_emit [simp]: "holds_record e (emit ev w) p x = holds_record e w p x"
  by (simp add: holds_record_def)




end
